theory Spec2Isabelle
  imports Complex_Main "HOL-Library.Word"
begin

unbundle bit_operations_syntax

section \<open>Machine types and constants of the beacon transmitter\<close>

text \<open>
  The firmware is a single C file for a dsPIC33CK.  Its fixed-width integers are
  modelled as machine words: \<open>uint8_t\<close>, \<open>uint16_t\<close> and \<open>uint32_t\<close> are unsigned
  words whose arithmetic wraps around, \<open>int32_t\<close> is a 32-bit word read in two's
  complement.  \<open>size_t\<close> is the 16-bit unsigned type of the target compiler.
\<close>

type_synonym u8 = "8 word"
type_synonym u16 = "16 word"
type_synonym u32 = "32 word"
type_synonym i32 = "32 word"

definition SAMPLES_PER_SYMBOL :: u32 where
  "SAMPLES_PER_SYMBOL = 200000 div 400"

definition DAC_OFFSET :: i32 where
  "DAC_OFFSET = 2048"

definition COS_1P1_Q15 :: i32 where
  "COS_1P1_Q15 = 14865"

definition SIN_1P1_Q15 :: i32 where
  "SIN_1P1_Q15 = 29197"

definition PREAMBLE_PHASE :: u8 where
  "PREAMBLE_PHASE = 0"

definition DATA_PHASE :: u8 where
  "DATA_PHASE = 1"

definition PREAMBLE_SAMPLES :: u32 where
  "PREAMBLE_SAMPLES = 160 * 200000 div 1000"

definition IDLE_SYMBOLS :: u16 where
  "IDLE_SYMBOLS = 2"

definition SYNC_BITS :: nat where "SYNC_BITS = 15"
definition FRAME_SYNC_BITS :: nat where "FRAME_SYNC_BITS = 9"
definition COUNTRY_BITS :: nat where "COUNTRY_BITS = 10"
definition AIRCRAFT_BITS :: nat where "AIRCRAFT_BITS = 24"
definition POSITION_BITS :: nat where "POSITION_BITS = 21"
definition OFFSET_BITS :: nat where "OFFSET_BITS = 20"
definition BCH_POS_BITS :: nat where "BCH_POS_BITS = 10"
definition BCH_ID_BITS :: nat where "BCH_ID_BITS = 12"

definition MESSAGE_BITS :: nat where
  "MESSAGE_BITS = SYNC_BITS + FRAME_SYNC_BITS + COUNTRY_BITS +
                  AIRCRAFT_BITS + POSITION_BITS + OFFSET_BITS +
                  BCH_POS_BITS + BCH_ID_BITS"

definition BCH_POLY :: u32 where
  "BCH_POLY = 0x3B3"

section \<open>BCH encoders\<close>

text \<open>
  One pass of the body of the \<open>for\<close> loop of \<open>bch_encode_31_21\<close>, at loop index \<open>i\<close>:
  \<open>bit\<close> and \<open>msb\<close> are \<open>uint8_t\<close> locals, \<open>reg\<close> is the \<open>uint32_t\<close> register, which
  the loop never masks.
\<close>

definition bch_step :: "nat \<Rightarrow> u32 \<Rightarrow> u32 \<Rightarrow> u32" where
  "bch_step i data reg =
     (let bit = (ucast (drop_bit i data AND 1) :: u8);
          msb = (ucast (drop_bit 9 reg AND 1) :: u8);
          reg1 = push_bit 1 reg OR ucast bit
      in if msb XOR bit \<noteq> 0 then reg1 XOR BCH_POLY else reg1)"

text \<open>
  The loop \<open>for (int i = 20; i >= 0; i--)\<close>.  The first argument counts the
  iterations that remain, so the loop index of the next pass is one less;
  \<open>bch_loop 0\<close> is the exit at \<open>i = -1\<close>.
\<close>

fun bch_loop :: "nat \<Rightarrow> u32 \<Rightarrow> u32 \<Rightarrow> u32" where
  "bch_loop 0 data reg = reg"
| "bch_loop (Suc i) data reg = bch_loop i data (bch_step i data reg)"

definition bch_encode_31_21 :: "u32 \<Rightarrow> u16" where
  "bch_encode_31_21 data0 =
     (let reg = 0;
          data = data0 AND 0x1FFFFF;
          reg = bch_loop 21 data reg
      in ucast (reg AND 0x3FF))"

definition bch_encode_12_12 :: "u16 \<Rightarrow> u16" where
  "bch_encode_12_12 data = data"

section \<open>Precomputed DAC tables\<close>

text \<open>
  The initialisers of the two constant tables, as written in the source: a product
  of \<open>int32_t\<close> values (or a difference or sum of two), shifted right arithmetically
  by 18, added to \<open>DAC_OFFSET\<close> and converted to \<open>uint16_t\<close>, which keeps the low 16
  bits.
\<close>

definition precomputed_dac :: "u16 list" where
  "precomputed_dac =
     [ucast (DAC_OFFSET + signed_drop_bit 18 ((32767 :: i32) * COS_1P1_Q15)),
      ucast (DAC_OFFSET + signed_drop_bit 18 ((10126 :: i32) * COS_1P1_Q15)),
      ucast (DAC_OFFSET + signed_drop_bit 18 ((- 26510 :: i32) * COS_1P1_Q15)),
      ucast (DAC_OFFSET + signed_drop_bit 18 ((- 26510 :: i32) * COS_1P1_Q15)),
      ucast (DAC_OFFSET + signed_drop_bit 18 ((10126 :: i32) * COS_1P1_Q15))]"

definition precomputed_symbol_dac :: "u16 list list" where
  "precomputed_symbol_dac =
     [[ucast (DAC_OFFSET + signed_drop_bit 18 ((32767 :: i32) * COS_1P1_Q15 - (0 :: i32) * SIN_1P1_Q15)),
       ucast (DAC_OFFSET + signed_drop_bit 18 ((10126 :: i32) * COS_1P1_Q15 - (31163 :: i32) * SIN_1P1_Q15)),
       ucast (DAC_OFFSET + signed_drop_bit 18 ((- 26510 :: i32) * COS_1P1_Q15 - (19260 :: i32) * SIN_1P1_Q15)),
       ucast (DAC_OFFSET + signed_drop_bit 18 ((- 26510 :: i32) * COS_1P1_Q15 - (- 19260 :: i32) * SIN_1P1_Q15)),
       ucast (DAC_OFFSET + signed_drop_bit 18 ((10126 :: i32) * COS_1P1_Q15 - (- 31163 :: i32) * SIN_1P1_Q15))],
      [ucast (DAC_OFFSET + signed_drop_bit 18 ((32767 :: i32) * COS_1P1_Q15 + (0 :: i32) * SIN_1P1_Q15)),
       ucast (DAC_OFFSET + signed_drop_bit 18 ((10126 :: i32) * COS_1P1_Q15 + (31163 :: i32) * SIN_1P1_Q15)),
       ucast (DAC_OFFSET + signed_drop_bit 18 ((- 26510 :: i32) * COS_1P1_Q15 + (19260 :: i32) * SIN_1P1_Q15)),
       ucast (DAC_OFFSET + signed_drop_bit 18 ((- 26510 :: i32) * COS_1P1_Q15 + (- 19260 :: i32) * SIN_1P1_Q15)),
       ucast (DAC_OFFSET + signed_drop_bit 18 ((10126 :: i32) * COS_1P1_Q15 + (- 31163 :: i32) * SIN_1P1_Q15))]]"

section \<open>Errors\<close>

text \<open>
  C has no bounds checks: reading or writing an array outside its bounds is undefined
  behaviour.  The model makes it a value, so that "the access is in bounds" is the
  statement that a function returns \<open>Inr\<close>.
\<close>

datatype error = OutOfBounds

definition bind_err :: "error + 'a \<Rightarrow> ('a \<Rightarrow> error + 'b) \<Rightarrow> error + 'b" where
  "bind_err m f = (case m of Inl e \<Rightarrow> Inl e | Inr x \<Rightarrow> f x)"

definition rd :: "'a list \<Rightarrow> nat \<Rightarrow> error + 'a" where
  "rd xs i = (if i < length xs then Inr (xs ! i) else Inl OutOfBounds)"

section \<open>Program state\<close>

text \<open>
  The global variables of the program, the two DAC data registers the handler
  writes, and the Timer1 interrupt flag.  \<open>beacon_frame\<close> is the array
  \<open>uint8_t beacon_frame[MESSAGE_BITS]\<close>.
\<close>

record state =
  tx_phase :: u8
  carrier_phase :: u8
  preamble_count :: u32
  idle_count :: u16
  sample_count :: u32
  symbol_index :: u16
  beacon_frame :: "u8 list"
  debug_dac_value :: u16
  DAC1DATH :: u16
  DAC1DATL :: u16
  T1IF :: bool

text \<open>The values of the globals when \<open>main\<close> starts; the registers are cleared.\<close>

definition power_on_state :: state where
  "power_on_state =
     \<lparr>tx_phase = PREAMBLE_PHASE, carrier_phase = 0, preamble_count = 0,
      idle_count = 0, sample_count = 0, symbol_index = 0,
      beacon_frame = replicate MESSAGE_BITS 0, debug_dac_value = 0,
      DAC1DATH = 0, DAC1DATL = 0, T1IF = False\<rparr>"

section \<open>Beacon frame construction\<close>

text \<open>
  The first loop of \<open>build_beacon_frame\<close>,
  \<open>for (int i = 0; i < SYNC_BITS; i++) beacon_frame[bit_index++] = 1\<close>.
  The first argument is the number of iterations that remain; the pair is the
  array and the local \<open>bit_index\<close>.
\<close>

fun sync_loop :: "nat \<Rightarrow> u8 list \<times> nat \<Rightarrow> error + u8 list \<times> nat" where
  "sync_loop 0 st = Inr st"
| "sync_loop (Suc n) (fr, bit_index) =
     (if bit_index < length fr then sync_loop n (fr[bit_index := 1], bit_index + 1)
      else Inl OutOfBounds)"

text \<open>
  The seven other loops have one shape,
  \<open>for (int i = w - 1; i >= 0; i--) beacon_frame[bit_index++] = (v >> i) & 1\<close>,
  for a 16-bit or a 32-bit value \<open>v\<close>.  The first argument is \<open>i + 1\<close>.
\<close>

fun field_loop :: "nat \<Rightarrow> 'a::len word \<Rightarrow> u8 list \<times> nat \<Rightarrow> error + u8 list \<times> nat" where
  "field_loop 0 v st = Inr st"
| "field_loop (Suc i) v (fr, bit_index) =
     (if bit_index < length fr
      then field_loop i v (fr[bit_index := ucast (drop_bit i v AND 1)], bit_index + 1)
      else Inl OutOfBounds)"

text \<open>
  The body of \<open>build_beacon_frame\<close> on the array; the result also carries the final
  value of the local \<open>bit_index\<close>.
\<close>

definition build_beacon_frame_run :: "u8 list \<Rightarrow> error + u8 list \<times> nat" where
  "build_beacon_frame_run fr =
     (let frame_sync = (0x1AC :: u16);
          country_code = (0x2A5 :: u16);
          aircraft_id = (0x00A5F3C :: u32);
          position = (0x1A5F3 :: u32);
          position_offset = (0x0A5F3 :: u32)
      in bind_err (sync_loop SYNC_BITS (fr, 0)) (\<lambda>st.
         bind_err (field_loop 9 frame_sync st) (\<lambda>st.
         bind_err (field_loop 10 country_code st) (\<lambda>st.
         bind_err (field_loop 24 aircraft_id st) (\<lambda>st.
         bind_err (field_loop 21 position st) (\<lambda>st.
         bind_err (field_loop 20 position_offset st) (\<lambda>st.
         let position_parity = bch_encode_31_21 position in
         bind_err (field_loop 10 position_parity st) (\<lambda>st.
         let id_parity = bch_encode_12_12 (ucast (aircraft_id AND 0xFFF)) in
         field_loop 12 id_parity st))))))))"

definition build_beacon_frame :: "state \<Rightarrow> error + state" where
  "build_beacon_frame s =
     bind_err (build_beacon_frame_run (beacon_frame s))
       (\<lambda>(fr, bit_index). Inr (s\<lparr>beacon_frame := fr\<rparr>))"

section \<open>Timer1 interrupt handler\<close>

definition T1Interrupt :: "state \<Rightarrow> error + state" where
  "T1Interrupt s =
     (if tx_phase s = PREAMBLE_PHASE then
        bind_err (rd precomputed_dac (unat (carrier_phase s))) (\<lambda>dac_val.
          let s = s\<lparr>DAC1DATH := drop_bit 8 dac_val AND 0x0F\<rparr>;
              s = s\<lparr>DAC1DATL := dac_val AND 0xFF\<rparr>;
              s = s\<lparr>debug_dac_value := dac_val\<rparr>;
              s = s\<lparr>carrier_phase :=
                      (if carrier_phase s < 4 then carrier_phase s + 1 else 0)\<rparr>;
              s = s\<lparr>preamble_count := preamble_count s + 1\<rparr>;
              s = (if PREAMBLE_SAMPLES \<le> preamble_count s
                   then s\<lparr>tx_phase := DATA_PHASE, preamble_count := 0,
                          symbol_index := 0, sample_count := 0\<rparr>
                   else s)
          in Inr (s\<lparr>T1IF := False\<rparr>))
      else
        bind_err (if unat (symbol_index s) < MESSAGE_BITS
                  then rd (beacon_frame s) (unat (symbol_index s))
                  else Inr 0) (\<lambda>current_symbol.
        bind_err (rd precomputed_symbol_dac (unat current_symbol)) (\<lambda>row.
        bind_err (rd row (unat (carrier_phase s))) (\<lambda>dac_val.
          let s = s\<lparr>DAC1DATH := drop_bit 8 dac_val AND 0x0F\<rparr>;
              s = s\<lparr>DAC1DATL := dac_val AND 0xFF\<rparr>;
              s = s\<lparr>debug_dac_value := dac_val\<rparr>;
              s = s\<lparr>carrier_phase :=
                      (if carrier_phase s < 4 then carrier_phase s + 1 else 0)\<rparr>;
              s = s\<lparr>sample_count := sample_count s + 1\<rparr>;
              s = (if SAMPLES_PER_SYMBOL \<le> sample_count s
                   then (let s = s\<lparr>sample_count := 0\<rparr>
                         in if unat (symbol_index s) < MESSAGE_BITS
                            then s\<lparr>symbol_index := symbol_index s + 1\<rparr>
                            else (let s = s\<lparr>idle_count := idle_count s + 1\<rparr>
                                  in if IDLE_SYMBOLS \<le> idle_count s
                                     then s\<lparr>tx_phase := PREAMBLE_PHASE, idle_count := 0\<rparr>
                                     else s))
                   else s)
          in Inr (s\<lparr>T1IF := False\<rparr>)))))"

text \<open>\<open>n\<close> consecutive invocations of the handler.\<close>

fun ticks :: "nat \<Rightarrow> state \<Rightarrow> error + state" where
  "ticks 0 s = Inr s"
| "ticks (Suc n) s = bind_err (T1Interrupt s) (ticks n)"

text \<open>
  What \<open>main\<close> does to the modelled state before it enables interrupts:
  \<open>build_beacon_frame\<close>, then \<open>init_dac\<close> sets the DAC data registers to mid-scale,
  then \<open>init_timer1\<close> clears the interrupt flag.
\<close>

definition init_dac :: "state \<Rightarrow> state" where
  "init_dac s =
     (let s = s\<lparr>DAC1DATH := ucast (drop_bit 8 DAC_OFFSET AND 0x0F)\<rparr>
      in s\<lparr>DAC1DATL := ucast (DAC_OFFSET AND 0xFF)\<rparr>)"

definition init_timer1 :: "state \<Rightarrow> state" where
  "init_timer1 s = s\<lparr>T1IF := False\<rparr>"

definition main_startup :: "error + state" where
  "main_startup =
     bind_err (build_beacon_frame power_on_state) (\<lambda>s. Inr (init_timer1 (init_dac s)))"

section \<open>Specification vocabulary\<close>

text \<open>
  The reference encoder, written from the words of the specification and not from
  the code: the input is masked to 21 bits; a 10-bit shift register starts at 0; for
  each input bit from bit 20 down to bit 0, \<open>msb\<close> is bit 9 of the register before
  shifting, the register is shifted left by one with the incoming bit ORed into the
  new least significant bit, and it is XORed with \<open>0x3B3\<close> if \<open>msb XOR bit\<close> is 1;
  the result is the low 10 bits of the register.
\<close>

definition lfsr_ref_step :: "bool \<Rightarrow> 10 word \<Rightarrow> 10 word" where
  "lfsr_ref_step b reg =
     (let msb = bit reg 9;
          reg1 = push_bit 1 reg OR of_bool b
      in if msb \<noteq> b then reg1 XOR 0x3B3 else reg1)"

definition bch31_21_ref :: "u32 \<Rightarrow> u16" where
  "bch31_21_ref p =
     (let d = take_bit 21 p;
          reg = fold (\<lambda>i. lfsr_ref_step (bit d i)) (rev [0..<21]) 0
      in take_bit 10 (ucast reg))"

text \<open>The \<open>w\<close>-bit encoding of a value, most significant bit first, one bit per element.\<close>

definition msb_first :: "nat \<Rightarrow> 'a::len word \<Rightarrow> u8 list" where
  "msb_first w v = map (\<lambda>i. of_bool (bit v i)) (rev [0..<w])"

text \<open>
  A frame buffer as the handler expects it: the array has \<open>MESSAGE_BITS\<close> elements,
  each a bit.
\<close>

definition wf_frame :: "u8 list \<Rightarrow> bool" where
  "wf_frame fr \<longleftrightarrow> length fr = MESSAGE_BITS \<and> list_all (\<lambda>b. b \<le> 1) fr"

text \<open>
  The value the handler's local \<open>current_symbol\<close> takes in the data phase: the frame
  bit at \<open>symbol_index\<close>, or 0 once the index has passed the frame.
\<close>

definition tx_symbol :: "state \<Rightarrow> u8" where
  "tx_symbol s =
     (if unat (symbol_index s) < MESSAGE_BITS then beacon_frame s ! unat (symbol_index s)
      else 0)"

section \<open>Constants\<close>

lemma MESSAGE_BITS_eq: "MESSAGE_BITS = 121"
  by (simp add: MESSAGE_BITS_def SYNC_BITS_def FRAME_SYNC_BITS_def COUNTRY_BITS_def
      AIRCRAFT_BITS_def POSITION_BITS_def OFFSET_BITS_def BCH_POS_BITS_def BCH_ID_BITS_def)

lemma PREAMBLE_SAMPLES_eq: "PREAMBLE_SAMPLES = 32000"
  by (simp add: PREAMBLE_SAMPLES_def)

lemma SAMPLES_PER_SYMBOL_eq: "SAMPLES_PER_SYMBOL = 500"
  by (simp add: SAMPLES_PER_SYMBOL_def)

section \<open>The DAC tables\<close>

lemma precomputed_dac_values:
  "map unat precomputed_dac = [3906, 2622, 544, 544, 2622]"
  by (simp add: precomputed_dac_def DAC_OFFSET_def COS_1P1_Q15_def)

lemma precomputed_symbol_dac_values:
  "map (map unat) precomputed_symbol_dac =
     [[3906, 64687, 63935, 2689, 6093], [3906, 6093, 2689, 63935, 64687]]"
  by (simp add: precomputed_symbol_dac_def DAC_OFFSET_def COS_1P1_Q15_def SIN_1P1_Q15_def)

text \<open>
  The products and their sums stay inside the signed 32-bit range, so the word
  arithmetic of the model is the C arithmetic: the largest magnitude is that of
  \<open>10126 * COS_1P1_Q15 + 31163 * SIN_1P1_Q15\<close>.
\<close>

lemma symbol_dac_no_signed_overflow:
  "sint ((10126 :: i32) * COS_1P1_Q15 + (31163 :: i32) * SIN_1P1_Q15) =
     10126 * 14865 + 31163 * 29197"
  "sint ((10126 :: i32) * COS_1P1_Q15 - (31163 :: i32) * SIN_1P1_Q15) =
     10126 * 14865 - 31163 * 29197"
  by (simp_all add: COS_1P1_Q15_def SIN_1P1_Q15_def)

text \<open>
  Claim C9.  The arithmetic mean of the five entries of \<open>precomputed_dac\<close> differs from
  2048 by at most 2 (it is 2047.6).
\<close>

theorem precomputed_dac_mean:
  "\<bar>real (sum_list (map unat precomputed_dac)) / real (length precomputed_dac) - 2048\<bar> \<le> 2"
proof -
  have "length precomputed_dac = length (map unat precomputed_dac)" by simp
  then show ?thesis
    unfolding precomputed_dac_values by simp
qed

section \<open>The BCH encoders\<close>

lemma shift_and_one: "drop_bit i (w :: 'a::len word) AND 1 = of_bool (bit w i)"
  by (rule bit_word_eqI) (auto simp add: bit_simps)

lemma and_mask21: "(p :: 'a::len word) AND 0x1FFFFF = take_bit 21 p"
  by (simp add: take_bit_eq_mask mask_numeral)

lemma and_mask10: "(p :: 'a::len word) AND 0x3FF = take_bit 10 p"
  by (simp add: take_bit_eq_mask mask_numeral)

lemma bit_shl1:
  "bit (push_bit (Suc 0) (w :: 'a::len word)) n = (0 < n \<and> n < LENGTH('a) \<and> bit w (n - 1))"
  by (auto simp add: bit_push_bit_iff simp del: push_bit_Suc dest: bit_imp_le_length)

text \<open>The bit shifted in meets a zero, so ORing it in is XORing it in.\<close>

lemma shl1_or_bit:
  "push_bit 1 (w :: 'a::len word) OR of_bool b = push_bit 1 w XOR of_bool b"
  by (rule bit_word_eqI)
     (auto simp add: bit_or_iff bit_xor_iff bit_shl1 bit_of_bool_iff simp del: push_bit_Suc)

lemma bch_step_alt:
  "bch_step i data reg =
     (push_bit 1 reg XOR of_bool (bit data i)) XOR
     (if bit reg 9 \<noteq> bit data i then BCH_POLY else 0)"
proof -
  have "bch_step i data reg =
     (if bit reg 9 \<noteq> bit data i then (push_bit 1 reg OR of_bool (bit data i)) XOR BCH_POLY
      else push_bit 1 reg OR of_bool (bit data i))"
    unfolding bch_step_def shift_and_one Let_def
    by (cases "bit reg 9"; cases "bit data i") (simp_all del: push_bit_Suc)
  then show ?thesis
    unfolding shl1_or_bit by (simp del: push_bit_Suc)
qed

lemma bch_step_xor:
  "bch_step i (a XOR b) (ra XOR rb) = bch_step i a ra XOR bch_step i b rb"
  unfolding bch_step_alt push_bit_xor bit_xor_iff
  by (cases "bit ra 9"; cases "bit rb 9"; cases "bit a i"; cases "bit b i")
     (simp_all del: push_bit_Suc add: ac_simps)

lemma bch_loop_xor:
  "bch_loop n (a XOR b) (ra XOR rb) = bch_loop n a ra XOR bch_loop n b rb"
  by (induction n arbitrary: ra rb) (simp_all add: bch_step_xor)

lemma parity_cast_xor:
  "(ucast ((x XOR y) AND 0x3FF) :: u16) = ucast ((x :: u32) AND 0x3FF) XOR ucast (y AND 0x3FF)"
  unfolding and_mask10 by (rule bit_word_eqI) (auto simp add: bit_simps)

lemma bch_encode_31_21_xor:
  "bch_encode_31_21 (a XOR b) = bch_encode_31_21 a XOR bch_encode_31_21 b"
proof -
  have m: "(a XOR b) AND 0x1FFFFF = (a AND 0x1FFFFF) XOR (b AND 0x1FFFFF)"
    by (rule bit.conj_xor_distrib2)
  have z: "(0 :: u32) = 0 XOR 0" by simp
  have "bch_loop 21 ((a XOR b) AND 0x1FFFFF) 0 =
        bch_loop 21 (a AND 0x1FFFFF) 0 XOR bch_loop 21 (b AND 0x1FFFFF) 0"
    unfolding m by (subst z, rule bch_loop_xor)
  then show ?thesis
    by (simp add: bch_encode_31_21_def parity_cast_xor)
qed

text \<open>
  Claim C6.  The position encoder is linear over GF(2): the parity of \<open>A XOR B\<close> is
  the XOR of the parities, for all 32-bit arguments and so for all 21-bit ones, and
  the parity of 0 is 0.
\<close>

theorem bch_encode_31_21_linear:
  "bch_encode_31_21 (a XOR b) = bch_encode_31_21 a XOR bch_encode_31_21 b \<and>
   bch_encode_31_21 0 = 0"
  using bch_encode_31_21_xor [of a b] bch_encode_31_21_xor [of 0 0] by simp

lemma step_refines:
  "(ucast (bch_step i data reg) :: 10 word) = lfsr_ref_step (bit data i) (ucast reg)"
proof -
  have p: "(ucast (push_bit (Suc 0) reg) :: 10 word) = push_bit (Suc 0) (ucast reg)"
    by (rule bit_word_eqI) (auto simp add: bit_ucast_iff bit_shl1 simp del: push_bit_Suc)
  have b9: "bit (ucast reg :: 10 word) 9 = bit reg 9"
    by (simp add: bit_ucast_iff)
  have poly: "(ucast BCH_POLY :: 10 word) = 0x3B3"
    by (simp add: BCH_POLY_def)
  have x: "\<And>u v :: u32. (ucast (u XOR v) :: 10 word) = ucast u XOR ucast v"
    by (rule bit_word_eqI) (auto simp add: bit_simps)
  have ob: "\<And>c. (ucast (of_bool c :: u32) :: 10 word) = of_bool c"
    by simp
  show ?thesis
    unfolding bch_step_alt lfsr_ref_step_def Let_def shl1_or_bit b9
    by (simp add: x p ob poly del: push_bit_Suc)
qed

lemma loop_refines:
  "(ucast (bch_loop n data reg) :: 10 word) =
     fold (\<lambda>i. lfsr_ref_step (bit data i)) (rev [0..<n]) (ucast reg)"
  by (induction n arbitrary: reg) (simp_all add: step_refines)

text \<open>
  Claim C5.  \<open>bch_encode_31_21\<close> computes the reference LFSR division of the
  specification.  The code keeps its register in 32 bits and never masks it inside
  the loop; the reference register has 10 bits.  They agree on every 32-bit
  argument, and so on every 21-bit one.
\<close>

theorem bch_encode_31_21_refines_reference:
  "bch_encode_31_21 p = bch31_21_ref p"
proof -
  have d: "p AND 0x1FFFFF = take_bit 21 p"
    by (rule and_mask21)
  have r: "\<And>x :: u32. (ucast (x AND 0x3FF) :: u16) = take_bit 10 (ucast (ucast x :: 10 word))"
    unfolding and_mask10 by (rule bit_word_eqI) (auto simp add: bit_simps)
  have z: "(0 :: 10 word) = ucast (0 :: u32)" by simp
  show ?thesis
    unfolding bch_encode_31_21_def bch31_21_ref_def Let_def d r
    by (subst z, subst loop_refines) simp
qed

text \<open>
  Claim C10.  The parity does not depend on bits 21 to 31 of the argument: for every
  32-bit \<open>x\<close> the encoder returns what it returns on \<open>x AND 0x1FFFFF\<close>.
\<close>

theorem bch_encode_31_21_ignores_high_bits:
  "bch_encode_31_21 x = bch_encode_31_21 (x AND 0x1FFFFF)"
  by (simp add: bch_encode_31_21_def Let_def and.assoc)

text \<open>
  Claim C7, as stated: for every 16-bit \<open>x\<close> the identity encoder returns the low 12
  bits of \<open>x\<close>.  The function has no mask, so this fails as soon as one of the bits 12
  to 15 is set.
\<close>

theorem bch_encode_12_12_not_masked:
  "bch_encode_12_12 0xFFFF \<noteq> 0xFFFF AND 0x0FFF"
  by (simp add: bch_encode_12_12_def)

text \<open>
  Claim C7, amended.  \<open>bch_encode_12_12\<close> returns its 16-bit argument unchanged; on
  an argument that its caller has already masked to 12 bits the result is therefore
  the low 12 bits.
\<close>

theorem bch_encode_12_12_identity:
  "bch_encode_12_12 x = x \<and> bch_encode_12_12 (x AND 0x0FFF) = x AND 0x0FFF"
  by (simp add: bch_encode_12_12_def)

section \<open>Frame construction\<close>

lemma bind_err_Inr: "bind_err (Inr x) f = f x"
  by (simp add: bind_err_def)

lemma length_msb_first: "length (msb_first n v) = n"
  by (simp add: msb_first_def)

lemma msb_first_Suc: "msb_first (Suc n) v = of_bool (bit v n) # msb_first n v"
  by (simp add: msb_first_def)

lemma frame_bit: "(ucast (drop_bit i (v :: 'a::len word) AND 1) :: u8) = of_bool (bit v i)"
  unfolding shift_and_one by simp

lemma sync_loop_writes:
  "bi + n \<le> length fr \<Longrightarrow>
     sync_loop n (fr, bi) = Inr (take bi fr @ replicate n 1 @ drop (bi + n) fr, bi + n)"
proof (induction n arbitrary: fr bi)
  case 0
  show ?case by simp
next
  case (Suc n)
  then have lt: "bi < length fr" and le: "Suc bi + n \<le> length (fr[bi := 1])"
    by simp_all
  have t: "take (Suc bi) (fr[bi := 1]) = take bi fr @ [1]"
    using lt by (simp add: take_Suc_conv_app_nth)
  have d: "drop (Suc bi + n) (fr[bi := 1]) = drop (Suc bi + n) fr"
    by simp
  show ?case
    using lt Suc.IH [OF le] by (simp add: t d)
qed

lemma field_loop_writes:
  "bi + n \<le> length fr \<Longrightarrow>
     field_loop n v (fr, bi) = Inr (take bi fr @ msb_first n v @ drop (bi + n) fr, bi + n)"
proof (induction n arbitrary: fr bi)
  case 0
  show ?case by (simp add: msb_first_def)
next
  case (Suc n)
  let ?b = "of_bool (bit v n) :: u8"
  from Suc.prems have lt: "bi < length fr" and le: "Suc bi + n \<le> length (fr[bi := ?b])"
    by simp_all
  have t: "take (Suc bi) (fr[bi := ?b]) = take bi fr @ [?b]"
    using lt by (simp add: take_Suc_conv_app_nth)
  have d: "drop (Suc bi + n) (fr[bi := ?b]) = drop (Suc bi + n) fr"
    by simp
  show ?case
    using lt Suc.IH [OF le] by (simp add: t d frame_bit msb_first_Suc)
qed

lemma sync_loop_prefix:
  assumes "length pre = bi" and "n \<le> length rest"
  shows "sync_loop n (pre @ rest, bi) = Inr ((pre @ replicate n 1) @ drop n rest, bi + n)"
  using assms sync_loop_writes [of bi n "pre @ rest"] by simp

lemma field_loop_prefix:
  assumes "length pre = bi" and "n \<le> length rest"
  shows "field_loop n v (pre @ rest, bi) = Inr ((pre @ msb_first n v) @ drop n rest, bi + n)"
  using assms field_loop_writes [of bi n "pre @ rest" v] by simp

lemma build_beacon_frame_run_eq:
  assumes len: "length fr = 121"
  shows "build_beacon_frame_run fr =
     Inr (replicate 15 1 @ msb_first 9 (0x1AC :: u16) @ msb_first 10 (0x2A5 :: u16) @
          msb_first 24 (0x00A5F3C :: u32) @ msb_first 21 (0x1A5F3 :: u32) @
          msb_first 20 (0x0A5F3 :: u32) @ msb_first 10 (bch_encode_31_21 0x1A5F3) @
          msb_first 12 (bch_encode_12_12 (ucast ((0x00A5F3C :: u32) AND 0xFFF))), 121)"
proof -
  define p1 :: "u8 list" where "p1 = [] @ replicate 15 1"
  define p2 where "p2 = p1 @ msb_first 9 (0x1AC :: u16)"
  define p3 where "p3 = p2 @ msb_first 10 (0x2A5 :: u16)"
  define p4 where "p4 = p3 @ msb_first 24 (0x00A5F3C :: u32)"
  define p5 where "p5 = p4 @ msb_first 21 (0x1A5F3 :: u32)"
  define p6 where "p6 = p5 @ msb_first 20 (0x0A5F3 :: u32)"
  define p7 where "p7 = p6 @ msb_first 10 (bch_encode_31_21 0x1A5F3)"
  define p8 where "p8 = p7 @ msb_first 12 (bch_encode_12_12 (ucast ((0x00A5F3C :: u32) AND 0xFFF)))"
  have l1: "length p1 = 15" by (simp add: p1_def)
  have l2: "length p2 = 15 + 9" by (simp add: p2_def l1 length_msb_first)
  have l3: "length p3 = 15 + 9 + 10" by (simp add: p3_def l2 length_msb_first)
  have l4: "length p4 = 15 + 9 + 10 + 24" by (simp add: p4_def l3 length_msb_first)
  have l5: "length p5 = 15 + 9 + 10 + 24 + 21" by (simp add: p5_def l4 length_msb_first)
  have l6: "length p6 = 15 + 9 + 10 + 24 + 21 + 20" by (simp add: p6_def l5 length_msb_first)
  have l7: "length p7 = 15 + 9 + 10 + 24 + 21 + 20 + 10" by (simp add: p7_def l6 length_msb_first)
  have s1: "sync_loop SYNC_BITS ([] @ fr, 0) = Inr (p1 @ drop 15 fr, 0 + 15)"
    unfolding p1_def SYNC_BITS_def by (rule sync_loop_prefix) (simp_all add: len)
  have s2: "field_loop 9 (0x1AC :: u16) (p1 @ drop 15 fr, 0 + 15) =
      Inr (p2 @ drop 9 (drop 15 fr), 0 + 15 + 9)"
    unfolding p2_def by (rule field_loop_prefix) (simp_all add: len l1)
  have s3: "field_loop 10 (0x2A5 :: u16) (p2 @ drop 9 (drop 15 fr), 0 + 15 + 9) =
      Inr (p3 @ drop 10 (drop 9 (drop 15 fr)), 0 + 15 + 9 + 10)"
    unfolding p3_def by (rule field_loop_prefix) (simp_all add: len l2)
  have s4: "field_loop 24 (0x00A5F3C :: u32) (p3 @ drop 10 (drop 9 (drop 15 fr)), 0 + 15 + 9 + 10) =
      Inr (p4 @ drop 24 (drop 10 (drop 9 (drop 15 fr))), 0 + 15 + 9 + 10 + 24)"
    unfolding p4_def by (rule field_loop_prefix) (simp_all add: len l3)
  have s5: "field_loop 21 (0x1A5F3 :: u32) (p4 @ drop 24 (drop 10 (drop 9 (drop 15 fr))), 0 + 15 + 9 + 10 + 24) =
      Inr (p5 @ drop 21 (drop 24 (drop 10 (drop 9 (drop 15 fr)))), 0 + 15 + 9 + 10 + 24 + 21)"
    unfolding p5_def by (rule field_loop_prefix) (simp_all add: len l4)
  have s6: "field_loop 20 (0x0A5F3 :: u32) (p5 @ drop 21 (drop 24 (drop 10 (drop 9 (drop 15 fr)))), 0 + 15 + 9 + 10 + 24 + 21) =
      Inr (p6 @ drop 20 (drop 21 (drop 24 (drop 10 (drop 9 (drop 15 fr))))), 0 + 15 + 9 + 10 + 24 + 21 + 20)"
    unfolding p6_def by (rule field_loop_prefix) (simp_all add: len l5)
  have s7: "field_loop 10 (bch_encode_31_21 0x1A5F3) (p6 @ drop 20 (drop 21 (drop 24 (drop 10 (drop 9 (drop 15 fr))))), 0 + 15 + 9 + 10 + 24 + 21 + 20) =
      Inr (p7 @ drop 10 (drop 20 (drop 21 (drop 24 (drop 10 (drop 9 (drop 15 fr)))))), 0 + 15 + 9 + 10 + 24 + 21 + 20 + 10)"
    unfolding p7_def by (rule field_loop_prefix) (simp_all add: len l6)
  have s8: "field_loop 12 (bch_encode_12_12 (ucast ((0x00A5F3C :: u32) AND 0xFFF))) (p7 @ drop 10 (drop 20 (drop 21 (drop 24 (drop 10 (drop 9 (drop 15 fr)))))), 0 + 15 + 9 + 10 + 24 + 21 + 20 + 10) =
      Inr (p8 @ drop 12 (drop 10 (drop 20 (drop 21 (drop 24 (drop 10 (drop 9 (drop 15 fr))))))), 0 + 15 + 9 + 10 + 24 + 21 + 20 + 10 + 12)"
    unfolding p8_def by (rule field_loop_prefix) (simp_all add: len l7)
  have run: "build_beacon_frame_run ([] @ fr) =
      Inr (p8 @ drop 12 (drop 10 (drop 20 (drop 21 (drop 24 (drop 10 (drop 9 (drop 15 fr))))))), 0 + 15 + 9 + 10 + 24 + 21 + 20 + 10 + 12)"
    unfolding build_beacon_frame_run_def Let_def s1 bind_err_Inr s2 s3 s4 s5 s6 s7 s8 ..
  have e: "drop 12 (drop 10 (drop 20 (drop 21 (drop 24 (drop 10 (drop 9 (drop 15 fr))))))) = []"
    by (simp add: len)
  show ?thesis
    using run unfolding e p8_def p7_def p6_def p5_def p4_def p3_def p2_def p1_def by simp
qed

lemma built_frame_value:
  "replicate 15 1 @ msb_first 9 (0x1AC :: u16) @ msb_first 10 (0x2A5 :: u16) @
          msb_first 24 (0x00A5F3C :: u32) @ msb_first 21 (0x1A5F3 :: u32) @
          msb_first 20 (0x0A5F3 :: u32) @ msb_first 10 (bch_encode_31_21 0x1A5F3) @
          msb_first 12 (bch_encode_12_12 (ucast ((0x00A5F3C :: u32) AND 0xFFF))) =
   [1, 1, 1, 1, 1, 1, 1, 1, 1, 1, 1, 1, 1, 1, 1,
    1, 1, 0, 1, 0, 1, 1, 0, 0,
    1, 0, 1, 0, 1, 0, 0, 1, 0, 1,
    0, 0, 0, 0, 1, 0, 1, 0, 0, 1, 0, 1, 1, 1, 1, 1, 0, 0, 1, 1, 1, 1, 0, 0,
    0, 0, 0, 0, 1, 1, 0, 1, 0, 0, 1, 0, 1, 1, 1, 1, 1, 0, 0, 1, 1,
    0, 0, 0, 0, 1, 0, 1, 0, 0, 1, 0, 1, 1, 1, 1, 1, 0, 0, 1, 1,
    0, 1, 0, 1, 0, 0, 1, 1, 1, 1,
    1, 1, 1, 1, 0, 0, 1, 1, 1, 1, 0, 0 :: u8]"
  by code_simp

text \<open>
  Claim C4.  Whatever the buffer held, \<open>build_beacon_frame\<close> overwrites all of its
  121 elements and ends with \<open>bit_index = 121\<close>, the sum of the segment widths.
  The buffer then holds, in order: 15 ones; the 9 bits of \<open>0x1AC\<close>; the 10 bits of
  the country code \<open>0x2A5\<close>, which are 1010100101; the 24 bits of the aircraft id;
  the 21 bits of the position; the 20 bits of the offset; the 10 bits of
  \<open>bch_encode_31_21 position\<close>; the 12 bits of \<open>bch_encode_12_12\<close> of the low 12 bits
  of the aircraft id; each most significant bit first.
\<close>

theorem build_beacon_frame_layout:
  assumes len: "length (beacon_frame s) = MESSAGE_BITS"
  shows "\<exists>fr. build_beacon_frame_run (beacon_frame s) = Inr (fr, MESSAGE_BITS) \<and>
           build_beacon_frame s = Inr (s\<lparr>beacon_frame := fr\<rparr>) \<and>
           MESSAGE_BITS = 121 \<and> length fr = 121 \<and>
           fr = replicate 15 1 @ msb_first 9 (0x1AC :: u16) @ msb_first 10 (0x2A5 :: u16) @
                msb_first 24 (0x00A5F3C :: u32) @ msb_first 21 (0x1A5F3 :: u32) @
                msb_first 20 (0x0A5F3 :: u32) @ msb_first 10 (bch_encode_31_21 0x1A5F3) @
                msb_first 12 (bch_encode_12_12 (ucast ((0x00A5F3C :: u32) AND 0xFFF))) \<and>
           take 15 fr = replicate 15 1 \<and>
           take 9 (drop 15 fr) = msb_first 9 (0x1AC :: u16) \<and>
           take 10 (drop 24 fr) = msb_first 10 (0x2A5 :: u16) \<and>
           take 10 (drop 24 fr) = [1, 0, 1, 0, 1, 0, 0, 1, 0, 1] \<and>
           take 24 (drop 34 fr) = msb_first 24 (0x00A5F3C :: u32) \<and>
           take 21 (drop 58 fr) = msb_first 21 (0x1A5F3 :: u32) \<and>
           take 20 (drop 79 fr) = msb_first 20 (0x0A5F3 :: u32) \<and>
           take 10 (drop 99 fr) = msb_first 10 (bch_encode_31_21 0x1A5F3) \<and>
           take 12 (drop 109 fr) =
             msb_first 12 (bch_encode_12_12 (ucast ((0x00A5F3C :: u32) AND 0xFFF)))"
proof -
  define fr where "fr = replicate 15 1 @ msb_first 9 (0x1AC :: u16) @ msb_first 10 (0x2A5 :: u16) @
                msb_first 24 (0x00A5F3C :: u32) @ msb_first 21 (0x1A5F3 :: u32) @
                msb_first 20 (0x0A5F3 :: u32) @ msb_first 10 (bch_encode_31_21 0x1A5F3) @
                msb_first 12 (bch_encode_12_12 (ucast ((0x00A5F3C :: u32) AND 0xFFF)))"
  have len': "length (beacon_frame s) = 121"
    using len by (simp add: MESSAGE_BITS_eq)
  have run: "build_beacon_frame_run (beacon_frame s) = Inr (fr, MESSAGE_BITS)"
    unfolding fr_def MESSAGE_BITS_eq by (rule build_beacon_frame_run_eq [OF len'])
  have st: "build_beacon_frame s = Inr (s\<lparr>beacon_frame := fr\<rparr>)"
    by (simp add: build_beacon_frame_def run bind_err_Inr)
  have l: "length fr = 121"
    by (simp add: fr_def length_msb_first)
  have a: "take 15 fr = replicate 15 1"
    by (simp add: fr_def)
  have b: "take 9 (drop 15 fr) = msb_first 9 (0x1AC :: u16)"
    by (simp add: fr_def length_msb_first)
  have c: "take 10 (drop 24 fr) = msb_first 10 (0x2A5 :: u16)"
    by (simp add: fr_def length_msb_first)
  have c': "msb_first 10 (0x2A5 :: u16) = [1, 0, 1, 0, 1, 0, 0, 1, 0, 1]"
    by code_simp
  have d: "take 24 (drop 34 fr) = msb_first 24 (0x00A5F3C :: u32)"
    by (simp add: fr_def length_msb_first)
  have e: "take 21 (drop 58 fr) = msb_first 21 (0x1A5F3 :: u32)"
    by (simp add: fr_def length_msb_first)
  have f: "take 20 (drop 79 fr) = msb_first 20 (0x0A5F3 :: u32)"
    by (simp add: fr_def length_msb_first)
  have g: "take 10 (drop 99 fr) = msb_first 10 (bch_encode_31_21 0x1A5F3)"
    by (simp add: fr_def length_msb_first)
  have h: "take 12 (drop 109 fr) =
             msb_first 12 (bch_encode_12_12 (ucast ((0x00A5F3C :: u32) AND 0xFFF)))"
    by (simp add: fr_def length_msb_first)
  from run st l a b c c' d e f g h show ?thesis
    unfolding fr_def [symmetric]
    by (intro exI [of _ fr]) (simp add: MESSAGE_BITS_eq length_msb_first)
qed


text \<open>
  The layout theorem at the zeroed buffer of the program start, with the 121 bits
  written out segment by segment.
\<close>

theorem build_beacon_frame_layout_witness:
  "length (beacon_frame power_on_state) = MESSAGE_BITS \<and>
   build_beacon_frame_run (beacon_frame power_on_state) =
     Inr ([1, 1, 1, 1, 1, 1, 1, 1, 1, 1, 1, 1, 1, 1, 1,
           1, 1, 0, 1, 0, 1, 1, 0, 0,
           1, 0, 1, 0, 1, 0, 0, 1, 0, 1,
           0, 0, 0, 0, 1, 0, 1, 0, 0, 1, 0, 1, 1, 1, 1, 1, 0, 0, 1, 1, 1, 1, 0, 0,
           0, 0, 0, 0, 1, 1, 0, 1, 0, 0, 1, 0, 1, 1, 1, 1, 1, 0, 0, 1, 1,
           0, 0, 0, 0, 1, 0, 1, 0, 0, 1, 0, 1, 1, 1, 1, 1, 0, 0, 1, 1,
           0, 1, 0, 1, 0, 0, 1, 1, 1, 1,
           1, 1, 1, 1, 0, 0, 1, 1, 1, 1, 0, 0], 121)"
proof -
  have len: "length (beacon_frame power_on_state) = MESSAGE_BITS"
    by (simp add: power_on_state_def)
  from build_beacon_frame_layout [OF len] obtain fr where
    "build_beacon_frame_run (beacon_frame power_on_state) = Inr (fr, MESSAGE_BITS)"
    "fr = replicate 15 1 @ msb_first 9 (0x1AC :: u16) @ msb_first 10 (0x2A5 :: u16) @
          msb_first 24 (0x00A5F3C :: u32) @ msb_first 21 (0x1A5F3 :: u32) @
          msb_first 20 (0x0A5F3 :: u32) @ msb_first 10 (bch_encode_31_21 0x1A5F3) @
          msb_first 12 (bch_encode_12_12 (ucast ((0x00A5F3C :: u32) AND 0xFFF)))"
    by blast
  then show ?thesis
    using len unfolding built_frame_value MESSAGE_BITS_eq by simp
qed

section \<open>The interrupt handler, one tick\<close>

lemma length_precomputed_dac: "length precomputed_dac = 5"
  by (simp add: precomputed_dac_def)

lemma length_precomputed_symbol_dac: "length precomputed_symbol_dac = 2"
  by (simp add: precomputed_symbol_dac_def)

lemma length_symbol_row: "i < 2 \<Longrightarrow> length (precomputed_symbol_dac ! i) = 5"
  by (cases i) (simp_all add: precomputed_symbol_dac_def)

lemma rd_carrier: "c < 5 \<Longrightarrow> rd precomputed_dac c = Inr (precomputed_dac ! c)"
  by (simp add: rd_def length_precomputed_dac)

lemma rd_symbol:
  "b < 2 \<Longrightarrow> c < 5 \<Longrightarrow>
     bind_err (rd precomputed_symbol_dac b) (\<lambda>row. bind_err (rd row c) f) =
     f (precomputed_symbol_dac ! b ! c)"
  by (simp add: rd_def bind_err_def length_precomputed_symbol_dac length_symbol_row)

lemma rd_frame:
  assumes "wf_frame (beacon_frame s)"
  shows "(if unat (symbol_index s) < MESSAGE_BITS
          then rd (beacon_frame s) (unat (symbol_index s))
          else Inr 0) = Inr (tx_symbol s)"
  using assms by (simp add: wf_frame_def rd_def tx_symbol_def)

lemma tx_symbol_bit:
  assumes "wf_frame (beacon_frame s)"
  shows "unat (tx_symbol s) < 2"
proof (cases "unat (symbol_index s) < MESSAGE_BITS")
  case True
  with assms have "beacon_frame s ! unat (symbol_index s) \<le> 1"
    by (simp add: wf_frame_def list_all_length)
  then have "unat (beacon_frame s ! unat (symbol_index s)) \<le> 1"
    by (simp add: word_le_nat_alt)
  with True show ?thesis by (simp add: tx_symbol_def)
next
  case False
  then show ?thesis by (simp add: tx_symbol_def)
qed

lemma data_reads:
  assumes wf: "wf_frame (beacon_frame s)" and cp: "unat (carrier_phase s) < 5"
  shows "bind_err (if unat (symbol_index s) < MESSAGE_BITS
                   then rd (beacon_frame s) (unat (symbol_index s))
                   else Inr 0) (\<lambda>current_symbol.
         bind_err (rd precomputed_symbol_dac (unat current_symbol)) (\<lambda>row.
         bind_err (rd row (unat (carrier_phase s))) f)) =
         f (precomputed_symbol_dac ! unat (tx_symbol s) ! unat (carrier_phase s))"
  unfolding rd_frame [OF wf]
  by (simp add: bind_err_def [of "Inr x" for x] rd_symbol [OF tx_symbol_bit [OF wf] cp])

lemma next_phase:
  fixes c :: u8
  assumes "unat c < 5"
  shows "unat (if c < 4 then c + 1 else 0) = (unat c + 1) mod 5"
proof (cases "c < 4")
  case True
  then have "unat c < 4" by (simp add: word_less_nat_alt)
  then show ?thesis using True by (simp add: unat_word_ariths)
next
  case False
  then have "\<not> unat c < 4" by (simp add: word_less_nat_alt)
  with assms have "unat c = 4" by simp
  then show ?thesis using False by simp
qed

lemma tick_preamble:
  assumes ph: "tx_phase s = PREAMBLE_PHASE"
    and cp: "unat (carrier_phase s) < 5"
    and n: "unat (preamble_count s) < 32000"
  shows "\<exists>s'. T1Interrupt s = Inr s' \<and> beacon_frame s' = beacon_frame s \<and>
           idle_count s' = idle_count s \<and>
           unat (carrier_phase s') = (unat (carrier_phase s) + 1) mod 5 \<and>
           debug_dac_value s' = precomputed_dac ! unat (carrier_phase s) \<and>
           (if unat (preamble_count s) + 1 < 32000
            then tx_phase s' = PREAMBLE_PHASE \<and>
                 unat (preamble_count s') = unat (preamble_count s) + 1 \<and>
                 sample_count s' = sample_count s \<and> symbol_index s' = symbol_index s
            else tx_phase s' = DATA_PHASE \<and> preamble_count s' = 0 \<and>
                 sample_count s' = 0 \<and> symbol_index s' = 0)"
proof -
  have pc: "unat (preamble_count s + 1) = unat (preamble_count s) + 1"
    using n by (simp add: unat_word_ariths)
  have le: "(PREAMBLE_SAMPLES \<le> preamble_count s + 1) = (\<not> unat (preamble_count s) + 1 < 32000)"
    by (simp add: PREAMBLE_SAMPLES_eq word_le_nat_alt pc not_less)
  show ?thesis
    unfolding T1Interrupt_def Let_def
    using next_phase [OF cp]
    by (auto simp add: ph rd_carrier [OF cp] bind_err_def le pc split: if_splits)
qed

lemma tick_data:
  assumes ph: "tx_phase s \<noteq> PREAMBLE_PHASE"
    and wf: "wf_frame (beacon_frame s)"
    and cp: "unat (carrier_phase s) < 5"
    and r: "unat (sample_count s) < 500"
    and i: "unat (idle_count s) < 2"
  shows "\<exists>s'. T1Interrupt s = Inr s' \<and> beacon_frame s' = beacon_frame s \<and>
           preamble_count s' = preamble_count s \<and>
           unat (carrier_phase s') = (unat (carrier_phase s) + 1) mod 5 \<and>
           debug_dac_value s' =
             precomputed_symbol_dac ! unat (tx_symbol s) ! unat (carrier_phase s) \<and>
           (if unat (sample_count s) + 1 < 500
            then tx_phase s' = tx_phase s \<and>
                 unat (sample_count s') = unat (sample_count s) + 1 \<and>
                 symbol_index s' = symbol_index s \<and> idle_count s' = idle_count s
            else sample_count s' = 0 \<and>
                 (if unat (symbol_index s) < 121
                  then tx_phase s' = tx_phase s \<and>
                       unat (symbol_index s') = unat (symbol_index s) + 1 \<and>
                       idle_count s' = idle_count s
                  else symbol_index s' = symbol_index s \<and>
                       (if unat (idle_count s) + 1 < 2
                        then tx_phase s' = tx_phase s \<and>
                             unat (idle_count s') = unat (idle_count s) + 1
                        else tx_phase s' = PREAMBLE_PHASE \<and> idle_count s' = 0)))"
proof -
  have sc: "unat (sample_count s + 1) = unat (sample_count s) + 1"
    using r by (simp add: unat_word_ariths)
  have le: "(SAMPLES_PER_SYMBOL \<le> sample_count s + 1) = (\<not> unat (sample_count s) + 1 < 500)"
    by (simp add: SAMPLES_PER_SYMBOL_eq word_le_nat_alt sc not_less)
  have ic: "unat (idle_count s + 1) = unat (idle_count s) + 1"
    using i by (simp add: unat_word_ariths)
  have il: "(IDLE_SYMBOLS \<le> idle_count s + 1) = (\<not> unat (idle_count s) + 1 < 2)"
    unfolding IDLE_SYMBOLS_def word_le_nat_alt ic by auto
  have si: "unat (symbol_index s) < 121 \<Longrightarrow> unat (symbol_index s + 1) = unat (symbol_index s) + 1"
    by (simp add: unat_word_ariths)
  show ?thesis
    unfolding T1Interrupt_def data_reads [OF wf cp] Let_def
    using next_phase [OF cp]
    by (auto simp add: ph le sc il ic si MESSAGE_BITS_eq split: if_splits)
qed


lemma tick_phase:
  assumes wf: "wf_frame (beacon_frame s)" and cp: "unat (carrier_phase s) < 5"
  shows "\<exists>s'. T1Interrupt s = Inr s' \<and> beacon_frame s' = beacon_frame s \<and>
           unat (carrier_phase s') = (unat (carrier_phase s) + 1) mod 5"
proof (cases "tx_phase s = PREAMBLE_PHASE")
  case True
  then show ?thesis
    unfolding T1Interrupt_def Let_def
    using next_phase [OF cp]
    by (auto simp add: rd_carrier [OF cp] bind_err_def split: if_splits)
next
  case False
  then show ?thesis
    unfolding T1Interrupt_def data_reads [OF wf cp] Let_def
    using next_phase [OF cp]
    by (auto split: if_splits)
qed

lemma ticks_add: "ticks (m + n) s = bind_err (ticks m s) (ticks n)"
proof (induction m arbitrary: s)
  case 0
  show ?case by (simp add: bind_err_def)
next
  case (Suc m)
  show ?case
    by (cases "T1Interrupt s") (simp_all add: bind_err_def Suc [unfolded bind_err_def])
qed

lemma ticks_one: "ticks (Suc 0) = T1Interrupt"
proof
  fix s
  show "ticks (Suc 0) s = T1Interrupt s"
    by (cases "T1Interrupt s") (simp_all add: bind_err_def)
qed

lemma ticks_snoc: "ticks (Suc n) s = bind_err (ticks n s) T1Interrupt"
  using ticks_add [of n "Suc 0" s] by (simp only: ticks_one add_Suc_right add_0_right)

lemma ticks_phase:
  assumes wf: "wf_frame (beacon_frame s)" and cp: "unat (carrier_phase s) < 5"
  shows "\<exists>s'. ticks n s = Inr s' \<and> beacon_frame s' = beacon_frame s \<and>
           unat (carrier_phase s') = (unat (carrier_phase s) + n) mod 5"
proof (induction n)
  case 0
  show ?case using cp by simp
next
  case (Suc n)
  then obtain s1 where s1: "ticks n s = Inr s1" "beacon_frame s1 = beacon_frame s"
      "unat (carrier_phase s1) = (unat (carrier_phase s) + n) mod 5"
    by blast
  have "wf_frame (beacon_frame s1)" "unat (carrier_phase s1) < 5"
    using s1 wf by simp_all
  from tick_phase [OF this] obtain s2 where s2: "T1Interrupt s1 = Inr s2"
      "beacon_frame s2 = beacon_frame s1"
      "unat (carrier_phase s2) = (unat (carrier_phase s1) + 1) mod 5"
    by blast
  have "ticks (Suc n) s = Inr s2"
    unfolding ticks_snoc s1 by (simp add: bind_err_def s2)
  moreover have "unat (carrier_phase s2) = (unat (carrier_phase s) + Suc n) mod 5"
    unfolding s2 s1 by (simp add: mod_Suc_eq)
  ultimately show ?case using s2 s1 by simp
qed

section \<open>The state the program starts from\<close>

lemma wf_frame_zero: "wf_frame (replicate MESSAGE_BITS 0)"
  by (simp add: wf_frame_def list_all_length)

lemma main_startup_state:
  "\<exists>s. main_startup = Inr s \<and> tx_phase s = PREAMBLE_PHASE \<and> carrier_phase s = 0 \<and>
       preamble_count s = 0 \<and> idle_count s = 0 \<and> sample_count s = 0 \<and>
       symbol_index s = 0 \<and> wf_frame (beacon_frame s) \<and> beacon_frame s ! 17 = 0"
proof -
  let ?F = "replicate 15 1 @ msb_first 9 (0x1AC :: u16) @ msb_first 10 (0x2A5 :: u16) @
          msb_first 24 (0x00A5F3C :: u32) @ msb_first 21 (0x1A5F3 :: u32) @
          msb_first 20 (0x0A5F3 :: u32) @ msb_first 10 (bch_encode_31_21 0x1A5F3) @
          msb_first 12 (bch_encode_12_12 (ucast ((0x00A5F3C :: u32) AND 0xFFF)))"
  have len: "length (beacon_frame power_on_state) = 121"
    by (simp add: power_on_state_def MESSAGE_BITS_eq)
  have b: "build_beacon_frame power_on_state = Inr (power_on_state\<lparr>beacon_frame := ?F\<rparr>)"
    unfolding build_beacon_frame_def build_beacon_frame_run_eq [OF len] bind_err_Inr
    by simp
  have m: "main_startup =
      Inr (init_timer1 (init_dac (power_on_state\<lparr>beacon_frame := ?F\<rparr>)))"
    unfolding main_startup_def b bind_err_Inr ..
  have w: "wf_frame ?F"
    unfolding built_frame_value by (simp add: wf_frame_def MESSAGE_BITS_eq)
  have z: "?F ! 17 = 0"
    unfolding built_frame_value by simp
  show ?thesis
    unfolding m using w z
    by (simp add: init_timer1_def init_dac_def Let_def power_on_state_def)
qed

section \<open>Carrier phase\<close>

text \<open>
  Claim C3.  Every invocation of the handler, in whatever phase and whatever the
  counters hold, moves \<open>carrier_phase\<close> one step on modulo 5; \<open>N\<close> consecutive
  invocations move it \<open>N\<close> steps on, so from 0 it is \<open>N mod 5\<close> after \<open>N\<close> ticks.
\<close>

theorem carrier_phase_advances:
  assumes wf: "wf_frame (beacon_frame s)" and cp: "unat (carrier_phase s) < 5"
  shows "(\<exists>s'. T1Interrupt s = Inr s' \<and>
               unat (carrier_phase s') = (unat (carrier_phase s) + 1) mod 5) \<and>
         (\<exists>s'. ticks N s = Inr s' \<and>
               unat (carrier_phase s') = (unat (carrier_phase s) + N) mod 5) \<and>
         (carrier_phase s = 0 \<longrightarrow>
            (\<exists>s'. ticks N s = Inr s' \<and> unat (carrier_phase s') = N mod 5))"
proof -
  from tick_phase [OF wf cp] have a: "\<exists>s'. T1Interrupt s = Inr s' \<and>
               unat (carrier_phase s') = (unat (carrier_phase s) + 1) mod 5"
    by blast
  from ticks_phase [OF wf cp, of N] have b: "\<exists>s'. ticks N s = Inr s' \<and>
               unat (carrier_phase s') = (unat (carrier_phase s) + N) mod 5"
    by blast
  from b have c: "carrier_phase s = 0 \<longrightarrow>
            (\<exists>s'. ticks N s = Inr s' \<and> unat (carrier_phase s') = N mod 5)"
    by auto
  from a b c show ?thesis by blast
qed

text \<open>At the program start: one tick gives phase 1, and 93507 ticks give phase 2.\<close>

theorem carrier_phase_advances_witness:
  "wf_frame (beacon_frame power_on_state) \<and> unat (carrier_phase power_on_state) < 5 \<and>
   (\<exists>s'. T1Interrupt power_on_state = Inr s' \<and> unat (carrier_phase s') = 1) \<and>
   (\<exists>s'. ticks 93507 power_on_state = Inr s' \<and> unat (carrier_phase s') = 2)"
proof -
  have wf: "wf_frame (beacon_frame power_on_state)"
    by (simp add: power_on_state_def wf_frame_zero)
  have cp: "unat (carrier_phase power_on_state) < 5"
    by (simp add: power_on_state_def)
  have z: "unat (carrier_phase power_on_state) = 0"
    by (simp add: power_on_state_def)
  show ?thesis
    using wf cp carrier_phase_advances [OF wf cp, of 93507]
    unfolding z by simp
qed

section \<open>Counter bounds\<close>

lemma tick_bounds:
  assumes wf: "wf_frame (beacon_frame s)"
    and cp: "unat (carrier_phase s) < 5"
    and si: "unat (symbol_index s) \<le> 121"
    and sc: "unat (sample_count s) < 500"
    and pc: "unat (preamble_count s) < 32000"
    and ic: "unat (idle_count s) < 2"
  shows "\<exists>s'. T1Interrupt s = Inr s' \<and> wf_frame (beacon_frame s') \<and>
           unat (carrier_phase s') < 5 \<and> unat (symbol_index s') \<le> 121 \<and>
           unat (sample_count s') < 500 \<and> unat (preamble_count s') < 32000 \<and>
           unat (idle_count s') < 2"
proof (cases "tx_phase s = PREAMBLE_PHASE")
  case True
  from tick_preamble [OF True cp pc] obtain s' where s': "T1Interrupt s = Inr s'"
    "beacon_frame s' = beacon_frame s" "idle_count s' = idle_count s"
    "unat (carrier_phase s') = (unat (carrier_phase s) + 1) mod 5"
    "if unat (preamble_count s) + 1 < 32000
            then tx_phase s' = PREAMBLE_PHASE \<and>
                 unat (preamble_count s') = unat (preamble_count s) + 1 \<and>
                 sample_count s' = sample_count s \<and> symbol_index s' = symbol_index s
            else tx_phase s' = DATA_PHASE \<and> preamble_count s' = 0 \<and>
                 sample_count s' = 0 \<and> symbol_index s' = 0"
    by blast
  show ?thesis
    using s' wf si sc ic by (cases "unat (preamble_count s) + 1 < 32000") auto
next
  case False
  from tick_data [OF False wf cp sc ic] obtain s' where s': "T1Interrupt s = Inr s'"
    "beacon_frame s' = beacon_frame s" "preamble_count s' = preamble_count s"
    "unat (carrier_phase s') = (unat (carrier_phase s) + 1) mod 5"
    "if unat (sample_count s) + 1 < 500
            then tx_phase s' = tx_phase s \<and>
                 unat (sample_count s') = unat (sample_count s) + 1 \<and>
                 symbol_index s' = symbol_index s \<and> idle_count s' = idle_count s
            else sample_count s' = 0 \<and>
                 (if unat (symbol_index s) < 121
                  then tx_phase s' = tx_phase s \<and>
                       unat (symbol_index s') = unat (symbol_index s) + 1 \<and>
                       idle_count s' = idle_count s
                  else symbol_index s' = symbol_index s \<and>
                       (if unat (idle_count s) + 1 < 2
                        then tx_phase s' = tx_phase s \<and>
                             unat (idle_count s') = unat (idle_count s) + 1
                        else tx_phase s' = PREAMBLE_PHASE \<and> idle_count s' = 0))"
    by blast
  have "unat (symbol_index s') \<le> 121 \<and> unat (sample_count s') < 500 \<and> unat (idle_count s') < 2"
    using s'(5) si sc ic by (auto split: if_splits)
  then show ?thesis
    using s' wf pc by simp
qed

lemma ticks_bounds:
  assumes wf: "wf_frame (beacon_frame s)"
    and cp: "unat (carrier_phase s) < 5"
    and si: "unat (symbol_index s) \<le> 121"
    and sc: "unat (sample_count s) < 500"
    and pc: "unat (preamble_count s) < 32000"
    and ic: "unat (idle_count s) < 2"
  shows "\<exists>s'. ticks n s = Inr s' \<and> wf_frame (beacon_frame s') \<and>
           unat (carrier_phase s') < 5 \<and> unat (symbol_index s') \<le> 121 \<and>
           unat (sample_count s') < 500 \<and> unat (preamble_count s') < 32000 \<and>
           unat (idle_count s') < 2"
proof (induction n)
  case 0
  show ?case using assms by simp
next
  case (Suc n)
  then obtain s1 where s1: "ticks n s = Inr s1" "wf_frame (beacon_frame s1)"
      "unat (carrier_phase s1) < 5" "unat (symbol_index s1) \<le> 121"
      "unat (sample_count s1) < 500" "unat (preamble_count s1) < 32000"
      "unat (idle_count s1) < 2"
    by blast
  from tick_bounds [OF s1(2-7)] show ?case
    unfolding ticks_snoc s1(1) by (simp add: bind_err_def)
qed


text \<open>
  Claim C8.  From a state in which every counter is zero and the frame buffer holds
  bits, any number of ticks leaves \<open>carrier_phase\<close> at most 4, \<open>symbol_index\<close> at most
  \<open>MESSAGE_BITS\<close>, \<open>sample_count\<close> below 500, \<open>preamble_count\<close> below 32000 and
  \<open>idle_count\<close> below 2; no tick reads outside an array, and the handler returns
  again in the state reached.
\<close>

theorem handler_bounds:
  assumes "tx_phase s = PREAMBLE_PHASE" and "carrier_phase s = 0"
    and "preamble_count s = 0" and "idle_count s = 0" and "sample_count s = 0"
    and "symbol_index s = 0" and wf: "wf_frame (beacon_frame s)"
  shows "\<exists>s'. ticks n s = Inr s' \<and> unat (carrier_phase s') \<le> 4 \<and>
           unat (symbol_index s') \<le> MESSAGE_BITS \<and>
           sample_count s' < SAMPLES_PER_SYMBOL \<and>
           preamble_count s' < PREAMBLE_SAMPLES \<and>
           idle_count s' < IDLE_SYMBOLS \<and>
           unat (carrier_phase s') < length precomputed_dac \<and>
           (\<exists>s''. T1Interrupt s' = Inr s'')"
proof -
  have z: "unat (carrier_phase s) < 5" "unat (symbol_index s) \<le> 121"
    "unat (sample_count s) < 500" "unat (preamble_count s) < 32000" "unat (idle_count s) < 2"
    using assms by simp_all
  from ticks_bounds [OF wf z, of n] obtain s' where s': "ticks n s = Inr s'"
    "wf_frame (beacon_frame s')" "unat (carrier_phase s') < 5" "unat (symbol_index s') \<le> 121"
    "unat (sample_count s') < 500" "unat (preamble_count s') < 32000"
    "unat (idle_count s') < 2"
    by blast
  from tick_bounds [OF s'(2-7)] have t: "\<exists>s''. T1Interrupt s' = Inr s''"
    by blast
  have "sample_count s' < SAMPLES_PER_SYMBOL"
    using s'(5) by (simp add: SAMPLES_PER_SYMBOL_eq word_less_nat_alt)
  moreover have "preamble_count s' < PREAMBLE_SAMPLES"
    using s'(6) by (simp add: PREAMBLE_SAMPLES_eq word_less_nat_alt)
  moreover have "idle_count s' < IDLE_SYMBOLS"
    using s'(7) by (simp add: IDLE_SYMBOLS_def word_less_nat_alt)
  moreover have "unat (carrier_phase s') \<le> 4" using s'(3) by simp
  ultimately show ?thesis
    using s'(1,3,4) t by (auto simp add: MESSAGE_BITS_eq length_precomputed_dac)
qed

text \<open>The bounds a million ticks after \<open>main\<close> has enabled the interrupt.\<close>

theorem handler_bounds_witness:
  "\<exists>s. main_startup = Inr s \<and> tx_phase s = PREAMBLE_PHASE \<and> carrier_phase s = 0 \<and>
       preamble_count s = 0 \<and> idle_count s = 0 \<and> sample_count s = 0 \<and>
       symbol_index s = 0 \<and> wf_frame (beacon_frame s) \<and>
       (\<exists>s'. ticks 1000000 s = Inr s' \<and> unat (carrier_phase s') \<le> 4 \<and>
           unat (symbol_index s') \<le> MESSAGE_BITS \<and>
           sample_count s' < SAMPLES_PER_SYMBOL \<and>
           preamble_count s' < PREAMBLE_SAMPLES \<and>
           idle_count s' < IDLE_SYMBOLS \<and>
           (\<exists>s''. T1Interrupt s' = Inr s''))"
proof -
  from main_startup_state obtain s where s: "main_startup = Inr s"
    "tx_phase s = PREAMBLE_PHASE" "carrier_phase s = 0" "preamble_count s = 0"
    "idle_count s = 0" "sample_count s = 0" "symbol_index s = 0" "wf_frame (beacon_frame s)"
    by blast
  from handler_bounds [OF s(2-8), of 1000000] s show ?thesis
    by blast
qed


section \<open>One transmission cycle\<close>

lemma phase_distinct: "DATA_PHASE \<noteq> PREAMBLE_PHASE"
  by (simp add: DATA_PHASE_def PREAMBLE_PHASE_def)

lemma cycle_track:
  assumes ph: "tx_phase s = PREAMBLE_PHASE" and pc: "preamble_count s = 0"
    and ic: "idle_count s = 0" and cp: "unat (carrier_phase s) < 5"
    and wf: "wf_frame (beacon_frame s)"
  shows "n \<le> 93500 \<Longrightarrow>
     \<exists>s'. ticks n s = Inr s' \<and> beacon_frame s' = beacon_frame s \<and>
       unat (carrier_phase s') = (unat (carrier_phase s) + n) mod 5 \<and>
       (if n < 32000
        then tx_phase s' = PREAMBLE_PHASE \<and> unat (preamble_count s') = n \<and> idle_count s' = 0
        else if n < 93500
        then tx_phase s' = DATA_PHASE \<and> preamble_count s' = 0 \<and>
             unat (sample_count s') = (n - 32000) mod 500 \<and>
             unat (symbol_index s') = min ((n - 32000) div 500) 121 \<and>
             unat (idle_count s') = (n - 32000) div 500 - 121
        else tx_phase s' = PREAMBLE_PHASE \<and> preamble_count s' = 0 \<and>
             idle_count s' = 0 \<and> sample_count s' = 0)"
proof (induction n)
  case 0
  show ?case using assms by simp
next
  case (Suc n)
  then have n: "n < 93500" by simp
  with Suc obtain s1 where run: "ticks n s = Inr s1"
    and fr: "beacon_frame s1 = beacon_frame s"
    and c1: "unat (carrier_phase s1) = (unat (carrier_phase s) + n) mod 5"
    and st: "if n < 32000
        then tx_phase s1 = PREAMBLE_PHASE \<and> unat (preamble_count s1) = n \<and> idle_count s1 = 0
        else tx_phase s1 = DATA_PHASE \<and> preamble_count s1 = 0 \<and>
             unat (sample_count s1) = (n - 32000) mod 500 \<and>
             unat (symbol_index s1) = min ((n - 32000) div 500) 121 \<and>
             unat (idle_count s1) = (n - 32000) div 500 - 121"
    by auto
  have wf1: "wf_frame (beacon_frame s1)" using wf fr by simp
  have cp1: "unat (carrier_phase s1) < 5" using c1 by simp
  have step: "\<And>s2. T1Interrupt s1 = Inr s2 \<Longrightarrow> ticks (Suc n) s = Inr s2"
    unfolding ticks_snoc run by (simp add: bind_err_def)
  have c2: "\<And>s2. unat (carrier_phase s2) = (unat (carrier_phase s1) + 1) mod 5 \<Longrightarrow>
      unat (carrier_phase s2) = (unat (carrier_phase s) + Suc n) mod 5"
    unfolding c1 by (simp add: mod_Suc_eq)
  show ?case
  proof (cases "n < 32000")
    case True
    with st have p1: "tx_phase s1 = PREAMBLE_PHASE" and n1: "unat (preamble_count s1) = n"
      and i1: "idle_count s1 = 0"
      by simp_all
    have b1: "unat (preamble_count s1) < 32000" using n1 True by simp
    from tick_preamble [OF p1 cp1 b1] obtain s2 where t: "T1Interrupt s1 = Inr s2"
      and f2: "beacon_frame s2 = beacon_frame s1" and i2: "idle_count s2 = idle_count s1"
      and cc: "unat (carrier_phase s2) = (unat (carrier_phase s1) + 1) mod 5"
      and r: "if unat (preamble_count s1) + 1 < 32000
            then tx_phase s2 = PREAMBLE_PHASE \<and>
                 unat (preamble_count s2) = unat (preamble_count s1) + 1 \<and>
                 sample_count s2 = sample_count s1 \<and> symbol_index s2 = symbol_index s1
            else tx_phase s2 = DATA_PHASE \<and> preamble_count s2 = 0 \<and>
                 sample_count s2 = 0 \<and> symbol_index s2 = 0"
      by blast
    show ?thesis
    proof (cases "Suc n < 32000")
      case lt: True
      with r n1 have "tx_phase s2 = PREAMBLE_PHASE \<and> unat (preamble_count s2) = Suc n"
        by simp
      with lt step [OF t] c2 [OF cc] f2 fr i2 i1 show ?thesis by simp
    next
      case ge: False
      with True have e: "Suc n = 32000" by simp
      with r n1 have "tx_phase s2 = DATA_PHASE \<and> preamble_count s2 = 0 \<and>
                 sample_count s2 = 0 \<and> symbol_index s2 = 0"
        by simp
      with step [OF t] c2 [OF cc] f2 fr i2 i1 show ?thesis
        unfolding e by simp
    qed
  next
    case False
    define m where "m = n - 32000"
    define j where "j = m div 500"
    define r where "r = m mod 500"
    have nm: "n = 32000 + m" and m: "m < 61500"
      using False n by (simp_all add: m_def)
    have dm: "m = 500 * j + r"
      unfolding j_def r_def by (rule mult_div_mod_eq [symmetric])
    have rb: "r < 500" unfolding r_def by simp
    have jb: "j \<le> 122" using m dm by linarith
    from st False have p1: "tx_phase s1 = DATA_PHASE" and z1: "preamble_count s1 = 0"
      and r1: "unat (sample_count s1) = r"
      and j1: "unat (symbol_index s1) = min j 121"
      and k1: "unat (idle_count s1) = j - 121"
      by (simp_all add: m_def j_def r_def)
    have np: "tx_phase s1 \<noteq> PREAMBLE_PHASE" using p1 phase_distinct by simp
    have b1: "unat (sample_count s1) < 500" using r1 rb by simp
    have b2: "unat (idle_count s1) < 2" using k1 jb by simp
    from tick_data [OF np wf1 cp1 b1 b2] obtain s2 where t: "T1Interrupt s1 = Inr s2"
      and f2: "beacon_frame s2 = beacon_frame s1"
      and z2: "preamble_count s2 = preamble_count s1"
      and cc: "unat (carrier_phase s2) = (unat (carrier_phase s1) + 1) mod 5"
      and r: "if unat (sample_count s1) + 1 < 500
            then tx_phase s2 = tx_phase s1 \<and>
                 unat (sample_count s2) = unat (sample_count s1) + 1 \<and>
                 symbol_index s2 = symbol_index s1 \<and> idle_count s2 = idle_count s1
            else sample_count s2 = 0 \<and>
                 (if unat (symbol_index s1) < 121
                  then tx_phase s2 = tx_phase s1 \<and>
                       unat (symbol_index s2) = unat (symbol_index s1) + 1 \<and>
                       idle_count s2 = idle_count s1
                  else symbol_index s2 = symbol_index s1 \<and>
                       (if unat (idle_count s1) + 1 < 2
                        then tx_phase s2 = tx_phase s1 \<and>
                             unat (idle_count s2) = unat (idle_count s1) + 1
                        else tx_phase s2 = PREAMBLE_PHASE \<and> idle_count s2 = 0))"
      by blast
    have sm: "Suc n - 32000 = Suc m" using nm by simp
    have ge: "\<not> Suc n < 32000" using False by simp
    show ?thesis
    proof (cases "r + 1 < 500")
      case within: True
      then have a: "Suc m mod 500 = r + 1" "Suc m div 500 = j"
        by (simp_all add: mod_Suc div_Suc j_def r_def)
      from within jb dm nm have lt: "Suc n < 93500" by linarith
      from r within r1 p1 have "tx_phase s2 = DATA_PHASE \<and>
                 unat (sample_count s2) = r + 1 \<and>
                 symbol_index s2 = symbol_index s1 \<and> idle_count s2 = idle_count s1"
        by simp
      with step [OF t] c2 [OF cc] f2 fr z2 z1 j1 k1 show ?thesis
        unfolding if_not_P [OF ge] if_P [OF lt] sm a by simp
    next
      case boundary: False
      with rb have r499: "r = 499" by simp
      then have a: "Suc m mod 500 = 0" "Suc m div 500 = j + 1"
        by (simp_all add: mod_Suc div_Suc j_def r_def)
      from r r499 r1 have s0: "sample_count s2 = 0"
        and r': "if unat (symbol_index s1) < 121
                  then tx_phase s2 = tx_phase s1 \<and>
                       unat (symbol_index s2) = unat (symbol_index s1) + 1 \<and>
                       idle_count s2 = idle_count s1
                  else symbol_index s2 = symbol_index s1 \<and>
                       (if unat (idle_count s1) + 1 < 2
                        then tx_phase s2 = tx_phase s1 \<and>
                             unat (idle_count s2) = unat (idle_count s1) + 1
                        else tx_phase s2 = PREAMBLE_PHASE \<and> idle_count s2 = 0)"
        by simp_all
      consider (bit) "j < 121" | (idle1) "j = 121" | (idle2) "j = 122"
        using jb by linarith
      then show ?thesis
      proof cases
        case bit
        with dm nm rb have lt: "Suc n < 93500" by linarith
        from r' bit j1 k1 p1 have "tx_phase s2 = DATA_PHASE \<and>
            unat (symbol_index s2) = j + 1 \<and> unat (idle_count s2) = 0"
          by simp
        with step [OF t] c2 [OF cc] f2 fr z2 z1 s0 bit show ?thesis
          unfolding if_not_P [OF ge] if_P [OF lt] sm a by simp
      next
        case idle1
        with dm nm rb have lt: "Suc n < 93500" by linarith
        from r' idle1 j1 k1 p1 have "tx_phase s2 = DATA_PHASE \<and>
            unat (symbol_index s2) = 121 \<and> unat (idle_count s2) = 1"
          by simp
        with step [OF t] c2 [OF cc] f2 fr z2 z1 s0 idle1 show ?thesis
          unfolding if_not_P [OF ge] if_P [OF lt] sm a by simp
      next
        case idle2
        with r499 dm nm have e: "Suc n = 93500" by linarith
        from r' idle2 j1 k1 have "tx_phase s2 = PREAMBLE_PHASE \<and> idle_count s2 = 0"
          by simp
        with step [OF t] c2 [OF cc] f2 fr z2 z1 s0 show ?thesis
          unfolding e by simp
      qed
    qed
  qed
qed

lemma data_tick_output:
  assumes ph: "tx_phase s = PREAMBLE_PHASE" and pc: "preamble_count s = 0"
    and ic: "idle_count s = 0" and cp: "unat (carrier_phase s) < 5"
    and wf: "wf_frame (beacon_frame s)" and k: "k < 61500"
  shows "\<exists>s' s''. ticks (32000 + k) s = Inr s' \<and> tx_phase s' = DATA_PHASE \<and>
           unat (symbol_index s') = min (k div 500) 121 \<and>
           unat (sample_count s') = k mod 500 \<and>
           unat (carrier_phase s') = (unat (carrier_phase s) + (32000 + k)) mod 5 \<and>
           T1Interrupt s' = Inr s'' \<and>
           debug_dac_value s'' =
             precomputed_symbol_dac !
               unat (if k div 500 < 121 then beacon_frame s ! (k div 500) else 0) !
               unat (carrier_phase s')"
proof -
  have n: "32000 + k \<le> 93500" "\<not> 32000 + k < 32000" "32000 + k < 93500"
    using k by simp_all
  from cycle_track [OF ph pc ic cp wf n(1)] obtain s' where run: "ticks (32000 + k) s = Inr s'"
    and fr: "beacon_frame s' = beacon_frame s"
    and c: "unat (carrier_phase s') = (unat (carrier_phase s) + (32000 + k)) mod 5"
    and st: "tx_phase s' = DATA_PHASE \<and> preamble_count s' = 0 \<and>
             unat (sample_count s') = (32000 + k - 32000) mod 500 \<and>
             unat (symbol_index s') = min ((32000 + k - 32000) div 500) 121 \<and>
             unat (idle_count s') = (32000 + k - 32000) div 500 - 121"
    unfolding if_not_P [OF n(2)] if_P [OF n(3)] by blast
  from st have p: "tx_phase s' = DATA_PHASE"
    and r: "unat (sample_count s') = k mod 500"
    and j: "unat (symbol_index s') = min (k div 500) 121"
    and i: "unat (idle_count s') = k div 500 - 121"
    by simp_all
  have jb: "k div 500 \<le> 122" using k by simp
  have np: "tx_phase s' \<noteq> PREAMBLE_PHASE" using p phase_distinct by simp
  have wf': "wf_frame (beacon_frame s')" using wf fr by simp
  have cp': "unat (carrier_phase s') < 5" using c by simp
  have b1: "unat (sample_count s') < 500" using r by simp
  have b2: "unat (idle_count s') < 2" using i jb by simp
  from tick_data [OF np wf' cp' b1 b2] obtain s'' where t: "T1Interrupt s' = Inr s''"
    and d: "debug_dac_value s'' =
             precomputed_symbol_dac ! unat (tx_symbol s') ! unat (carrier_phase s')"
    by blast
  have "tx_symbol s' = (if k div 500 < 121 then beacon_frame s ! (k div 500) else 0)"
    unfolding tx_symbol_def j fr MESSAGE_BITS_eq by (simp add: min_def)
  with run p j r c t d show ?thesis by simp
qed

text \<open>
  Claim C2.  From a state in the preamble phase whose \<open>preamble_count\<close> and
  \<open>idle_count\<close> are 0 (the claim also sets \<open>sample_count\<close> to 0, which the handler
  does not read before it resets it), with the carrier phase in range and bits in
  the frame buffer: the state after each of the first 31999 ticks, and the start
  itself, is in the preamble phase; the state after 32000 ticks is in the data phase
  with \<open>symbol_index\<close>, \<open>sample_count\<close> and \<open>preamble_count\<close> 0; the states after
  \<open>32000 + k\<close> ticks for \<open>k < 61500\<close> are in the data phase, with \<open>symbol_index\<close> equal
  to \<open>k div 500\<close> for the 121 frame bits and 121 for the two idle symbol periods, in
  which the next sample is the one of symbol 0; the state after 93500 ticks is in
  the preamble phase with \<open>preamble_count\<close>, \<open>idle_count\<close> and \<open>sample_count\<close> 0.
\<close>

theorem burst_timing:
  assumes ph: "tx_phase s = PREAMBLE_PHASE" and pc: "preamble_count s = 0"
    and sc: "sample_count s = 0" and ic: "idle_count s = 0"
    and cp: "unat (carrier_phase s) < 5" and wf: "wf_frame (beacon_frame s)"
  shows "(\<forall>k<32000. \<exists>s'. ticks k s = Inr s' \<and> tx_phase s' = PREAMBLE_PHASE) \<and>
         (\<exists>s'. ticks 32000 s = Inr s' \<and> tx_phase s' = DATA_PHASE \<and> symbol_index s' = 0 \<and>
                sample_count s' = 0 \<and> preamble_count s' = 0) \<and>
         (\<forall>k<61500. \<exists>s' s''. ticks (32000 + k) s = Inr s' \<and> tx_phase s' = DATA_PHASE \<and>
                unat (symbol_index s') = min (k div 500) 121 \<and>
                unat (sample_count s') = k mod 500 \<and>
                T1Interrupt s' = Inr s'' \<and>
                debug_dac_value s'' =
                  precomputed_symbol_dac !
                    unat (if k div 500 < 121 then beacon_frame s ! (k div 500) else 0) !
                    unat (carrier_phase s')) \<and>
         (\<exists>s'. ticks 93500 s = Inr s' \<and> tx_phase s' = PREAMBLE_PHASE \<and>
                preamble_count s' = 0 \<and> idle_count s' = 0 \<and> sample_count s' = 0)"
proof -
  have a: "\<forall>k<32000. \<exists>s'. ticks k s = Inr s' \<and> tx_phase s' = PREAMBLE_PHASE"
  proof (intro allI impI)
    fix k :: nat
    assume k: "k < 32000"
    then have "k \<le> 93500" by simp
    from cycle_track [OF ph pc ic cp wf this] show "\<exists>s'. ticks k s = Inr s' \<and> tx_phase s' = PREAMBLE_PHASE"
      unfolding if_P [OF k] by blast
  qed
  have b: "\<exists>s'. ticks 32000 s = Inr s' \<and> tx_phase s' = DATA_PHASE \<and> symbol_index s' = 0 \<and>
                sample_count s' = 0 \<and> preamble_count s' = 0"
  proof -
    have "(32000 :: nat) \<le> 93500" by simp
    from cycle_track [OF ph pc ic cp wf this] obtain s' where "ticks 32000 s = Inr s'"
      "tx_phase s' = DATA_PHASE" "preamble_count s' = 0" "unat (sample_count s') = 0"
      "unat (symbol_index s') = 0"
      by auto
    then show ?thesis by (simp add: unat_eq_0)
  qed
  have c: "\<forall>k<61500. \<exists>s' s''. ticks (32000 + k) s = Inr s' \<and> tx_phase s' = DATA_PHASE \<and>
                unat (symbol_index s') = min (k div 500) 121 \<and>
                unat (sample_count s') = k mod 500 \<and>
                T1Interrupt s' = Inr s'' \<and>
                debug_dac_value s'' =
                  precomputed_symbol_dac !
                    unat (if k div 500 < 121 then beacon_frame s ! (k div 500) else 0) !
                    unat (carrier_phase s')"
  proof (intro allI impI)
    fix k :: nat
    assume k: "k < 61500"
    from data_tick_output [OF ph pc ic cp wf k]
    show "\<exists>s' s''. ticks (32000 + k) s = Inr s' \<and> tx_phase s' = DATA_PHASE \<and>
                unat (symbol_index s') = min (k div 500) 121 \<and>
                unat (sample_count s') = k mod 500 \<and>
                T1Interrupt s' = Inr s'' \<and>
                debug_dac_value s'' =
                  precomputed_symbol_dac !
                    unat (if k div 500 < 121 then beacon_frame s ! (k div 500) else 0) !
                    unat (carrier_phase s')"
      by blast
  qed
  have d: "\<exists>s'. ticks 93500 s = Inr s' \<and> tx_phase s' = PREAMBLE_PHASE \<and>
                preamble_count s' = 0 \<and> idle_count s' = 0 \<and> sample_count s' = 0"
  proof -
    have "(93500 :: nat) \<le> 93500" by simp
    from cycle_track [OF ph pc ic cp wf this] show ?thesis
      by auto
  qed
  from a b c d show ?thesis by (intro conjI)
qed

text \<open>The cycle of the running program, from the state \<open>main\<close> leaves.\<close>

theorem burst_timing_witness:
  "\<exists>s. main_startup = Inr s \<and> tx_phase s = PREAMBLE_PHASE \<and> preamble_count s = 0 \<and>
       sample_count s = 0 \<and> idle_count s = 0 \<and> unat (carrier_phase s) < 5 \<and>
       wf_frame (beacon_frame s) \<and>
       (\<exists>s'. ticks 31999 s = Inr s' \<and> tx_phase s' = PREAMBLE_PHASE) \<and>
       (\<exists>s'. ticks 32000 s = Inr s' \<and> tx_phase s' = DATA_PHASE \<and> symbol_index s' = 0 \<and>
              sample_count s' = 0 \<and> preamble_count s' = 0) \<and>
       (\<exists>s'. ticks 93499 s = Inr s' \<and> tx_phase s' = DATA_PHASE \<and>
              unat (symbol_index s') = 121 \<and> unat (sample_count s') = 499) \<and>
       (\<exists>s'. ticks 93500 s = Inr s' \<and> tx_phase s' = PREAMBLE_PHASE \<and>
              preamble_count s' = 0 \<and> idle_count s' = 0 \<and> sample_count s' = 0)"
proof -
  from main_startup_state obtain s where s: "main_startup = Inr s"
    "tx_phase s = PREAMBLE_PHASE" "carrier_phase s = 0" "preamble_count s = 0"
    "idle_count s = 0" "sample_count s = 0" "symbol_index s = 0" "wf_frame (beacon_frame s)"
    by blast
  have cp: "unat (carrier_phase s) < 5" using s(3) by simp
  note t = burst_timing [OF s(2) s(4) s(6) s(5) cp s(8)]
  from t have a: "\<exists>s'. ticks 31999 s = Inr s' \<and> tx_phase s' = PREAMBLE_PHASE"
    by simp
  from t have b: "\<exists>s'. ticks 32000 s = Inr s' \<and> tx_phase s' = DATA_PHASE \<and> symbol_index s' = 0 \<and>
              sample_count s' = 0 \<and> preamble_count s' = 0"
    by (elim conjE)
  from t have "\<forall>k<61500. \<exists>s' s''. ticks (32000 + k) s = Inr s' \<and> tx_phase s' = DATA_PHASE \<and>
                unat (symbol_index s') = min (k div 500) 121 \<and>
                unat (sample_count s') = k mod 500 \<and>
                T1Interrupt s' = Inr s'' \<and>
                debug_dac_value s'' =
                  precomputed_symbol_dac !
                    unat (if k div 500 < 121 then beacon_frame s ! (k div 500) else 0) !
                    unat (carrier_phase s')"
    by (elim conjE)
  from this [rule_format, of 61499] have c: "\<exists>s'. ticks 93499 s = Inr s' \<and> tx_phase s' = DATA_PHASE \<and>
              unat (symbol_index s') = 121 \<and> unat (sample_count s') = 499"
    by auto
  from t have d: "\<exists>s'. ticks 93500 s = Inr s' \<and> tx_phase s' = PREAMBLE_PHASE \<and>
              preamble_count s' = 0 \<and> idle_count s' = 0 \<and> sample_count s' = 0"
    by (elim conjE)
  from s cp a b c d show ?thesis by blast
qed

section \<open>The samples outside the DAC range\<close>

text \<open>
  Claim C1.  Every entry of \<open>precomputed_dac\<close> and of \<open>precomputed_symbol_dac\<close> should
  lie in the range 0 to 4095 of the 12-bit DAC.  The five carrier entries do.  Six of
  the ten symbol entries do not: for symbol 0 at carrier phase 1 the sum before the
  conversion is \<open>2048 - 2897 = -849\<close>, which the conversion to \<open>uint16_t\<close> turns into
  64687, and for symbol 1 at carrier phase 1 it is \<open>2048 + 4045 = 6093\<close>.  The running
  program reads such an entry: frame bit 17 is 0, and the handler invoked after
  40501 ticks takes the sample of symbol 0 at carrier phase 1.
\<close>

theorem precomputed_symbol_dac_out_of_range:
  "list_all (\<lambda>c. unat c \<le> 4095) precomputed_dac \<and>
   unat (precomputed_symbol_dac ! 0 ! 1) = 64687 \<and>
   4095 < unat (precomputed_symbol_dac ! 0 ! 1) \<and>
   unat (precomputed_symbol_dac ! 1 ! 1) = 6093 \<and>
   map (map (\<lambda>c. unat c \<le> 4095)) precomputed_symbol_dac =
     [[True, False, False, True, False], [True, False, True, False, False]] \<and>
   (\<exists>s s' s''. main_startup = Inr s \<and> ticks 40501 s = Inr s' \<and>
      T1Interrupt s' = Inr s'' \<and> debug_dac_value s'' = 64687)"
proof -
  have c: "list_all (\<lambda>c. unat c \<le> 4095) precomputed_dac"
    by (simp add: precomputed_dac_def DAC_OFFSET_def COS_1P1_Q15_def)
  have v: "precomputed_symbol_dac =
      [[3906, 64687, 63935, 2689, 6093], [3906, 6093, 2689, 63935, 64687]]"
    by (simp add: precomputed_symbol_dac_def DAC_OFFSET_def COS_1P1_Q15_def SIN_1P1_Q15_def)
  have t: "unat (precomputed_symbol_dac ! 0 ! 1) = 64687 \<and>
      4095 < unat (precomputed_symbol_dac ! 0 ! 1) \<and>
      unat (precomputed_symbol_dac ! 1 ! 1) = 6093 \<and>
      map (map (\<lambda>c. unat c \<le> 4095)) precomputed_symbol_dac =
        [[True, False, False, True, False], [True, False, True, False, False]]"
    unfolding v by simp
  from main_startup_state obtain s where s: "main_startup = Inr s"
    "tx_phase s = PREAMBLE_PHASE" "carrier_phase s = 0" "preamble_count s = 0"
    "idle_count s = 0" "wf_frame (beacon_frame s)" "beacon_frame s ! 17 = 0"
    by blast
  have cp: "unat (carrier_phase s) < 5" using s(3) by simp
  have k: "(8501 :: nat) < 61500" by simp
  from data_tick_output [OF s(2) s(4) s(5) cp s(6) k] obtain s' s'' where
    r: "ticks (32000 + 8501) s = Inr s'" "T1Interrupt s' = Inr s''"
      "unat (carrier_phase s') = (unat (carrier_phase s) + (32000 + 8501)) mod 5"
      "debug_dac_value s'' =
             precomputed_symbol_dac !
               unat (if (8501 :: nat) div 500 < 121 then beacon_frame s ! (8501 div 500) else 0) !
               unat (carrier_phase s')"
    by blast
  have c1: "unat (carrier_phase s') = 1" using r(3) s(3) by simp
  have "debug_dac_value s'' = precomputed_symbol_dac ! 0 ! 1"
    using r(4) s(7) c1 by simp
  then have "debug_dac_value s'' = 64687"
    unfolding v by simp
  with r(1,2) s(1) have "\<exists>s s' s''. main_startup = Inr s \<and> ticks 40501 s = Inr s' \<and>
      T1Interrupt s' = Inr s'' \<and> debug_dac_value s'' = 64687"
    by auto
  with c t show ?thesis by blast
qed

end
